theory Spec2Isabelle
  imports Main "HOL-Library.Char_ord" "HOL-Library.List_Lexorder" "HOL-Library.Multiset"
    "HOL-Library.Sublist"
begin

section \<open>Strings\<close>

text \<open>
  Python's \<open>str\<close> is modelled as \<open>string\<close>, a list of characters; a character stands
  for a code point below 256. The helpers below are the built-in string methods the script
  calls, with the behaviour they have on such strings.
\<close>

definition isspace :: "char \<Rightarrow> bool" where
  \<comment> \<open>\<open>str.isspace\<close> on one character: TAB, LF, VT, FF, CR, the four separators
      FS, GS, RS, US, the space, NEL and the no-break space.\<close>
  "isspace c =
     (let n = (of_char c :: nat)
      in (9 \<le> n \<and> n \<le> 13) \<or> (28 \<le> n \<and> n \<le> 32) \<or> n = 133 \<or> n = 160)"

definition lstrip :: "string \<Rightarrow> string" where
  "lstrip s = dropWhile isspace s"

definition rstrip :: "string \<Rightarrow> string" where
  "rstrip s = rev (dropWhile isspace (rev s))"

definition strip :: "string \<Rightarrow> string" where
  \<comment> \<open>\<open>s.strip()\<close>\<close>
  "strip s = rstrip (lstrip s)"

fun split_from :: "string \<Rightarrow> string \<Rightarrow> string list" where
  \<comment> \<open>the scan of \<open>s.split()\<close>: \<open>cur\<close> is the field read so far\<close>
  "split_from cur [] = (if cur = [] then [] else [cur])"
| "split_from cur (c # cs) =
     (if isspace c then (if cur = [] then split_from [] cs else cur # split_from [] cs)
      else split_from (cur @ [c]) cs)"

definition split :: "string \<Rightarrow> string list" where
  \<comment> \<open>\<open>s.split()\<close> with no argument: the maximal runs of non-whitespace\<close>
  "split s = split_from [] s"

definition startswith :: "string \<Rightarrow> string \<Rightarrow> bool" where
  \<comment> \<open>\<open>s.startswith(p)\<close>\<close>
  "startswith s p = (take (length p) s = p)"

section \<open>Reading specs.conf\<close>

datatype exn = IndexError | Error string

definition RFC_URL :: "string \<Rightarrow> string" where
  \<comment> \<open>\<open>RFC_URL.format(number=number)\<close>\<close>
  "RFC_URL number = ''https://www.rfc-editor.org/rfc/rfc'' @ number @ ''.xml''"

definition DRAFT_URL :: "string \<Rightarrow> string" where
  \<comment> \<open>\<open>DRAFT_URL.format(name=name)\<close>\<close>
  "DRAFT_URL name = ''https://www.ietf.org/archive/id/'' @ name @ ''.xml''"

type_synonym spec = "string \<times> string"

definition strip_inline_comment :: "string \<Rightarrow> string" where
  \<comment> \<open>\<open>if '#' in line: line = line[:line.index('#')].strip()\<close>\<close>
  "strip_inline_comment line =
     (if CHR ''#'' \<in> set line then strip (takeWhile (\<lambda>c. c \<noteq> CHR ''#'') line) else line)"

definition parse_line :: "string \<Rightarrow> spec list \<times> string list \<Rightarrow> exn + spec list \<times> string list" where
  \<comment> \<open>One turn of the loop of \<open>parse_specs_conf\<close>. The state is the list \<open>specs\<close> and
      the lines printed so far; \<open>parts[0]\<close> on an empty list raises.\<close>
  "parse_line raw st =
     (case st of (specs, out) \<Rightarrow>
      let line = strip raw in
      if line = [] \<or> startswith line ''#'' then Inr (specs, out)
      else
        let line = strip_inline_comment line;
            parts = split line
        in (case parts of
              [] \<Rightarrow> Inl IndexError
            | kind # _ \<Rightarrow>
                if kind = ''rfc'' \<and> length parts \<ge> 2 then
                  let num = parts ! 1 in Inr (specs @ [(RFC_URL num, ''rfc'' @ num)], out)
                else if kind = ''draft'' \<and> length parts \<ge> 2 then
                  let name = parts ! 1 in Inr (specs @ [(DRAFT_URL name, name)], out)
                else if kind = ''url'' \<and> length parts \<ge> 3 then
                  let url = parts ! 1; name = parts ! 2 in Inr (specs @ [(url, name)], out)
                else Inr (specs, out @ [''  Warning: skipping unrecognized line: '' @ line])))"

fun parse_lines :: "string list \<Rightarrow> spec list \<times> string list \<Rightarrow> exn + spec list \<times> string list" where
  \<comment> \<open>\<open>for line in f: ...\<close>; an exception leaves the loop\<close>
  "parse_lines [] st = Inr st"
| "parse_lines (raw # rest) st =
     (case parse_line raw st of Inl e \<Rightarrow> Inl e | Inr st' \<Rightarrow> parse_lines rest st')"

definition parse_specs_conf :: "string list \<Rightarrow> exn + spec list \<times> string list" where
  \<comment> \<open>\<open>parse_specs_conf\<close> on the lines of the file: the entries returned and the lines
      printed.\<close>
  "parse_specs_conf lines = parse_lines lines ([], [])"
section \<open>More string and path helpers\<close>



fun join :: "string \<Rightarrow> string list \<Rightarrow> string" where
  \<comment> \<open>\<open>sep.join(xs)\<close>\<close>
  "join sep [] = []"
| "join sep [x] = x"
| "join sep (x # y # ys) = x @ sep @ join sep (y # ys)"

function replace :: "string \<Rightarrow> string \<Rightarrow> string \<Rightarrow> string" where
  \<comment> \<open>\<open>s.replace(old, new)\<close> for a non-empty \<open>old\<close>: every occurrence, found from the
      left and not overlapping, is replaced\<close>
  "replace old new s =
     (if s = [] \<or> old = [] then s
      else if startswith s old then new @ replace old new (drop (length old) s)
      else hd s # replace old new (tl s))"
  by pat_completeness auto
termination
  by (relation "measure (\<lambda>(old, new, s). length s)") auto




definition basename :: "string \<Rightarrow> string" where
  \<comment> \<open>\<open>os.path.basename\<close>: what follows the last slash\<close>
  "basename p = rev (takeWhile (\<lambda>c. c \<noteq> CHR ''/'') (rev p))"



definition path_join :: "string \<Rightarrow> string \<Rightarrow> string" where
  \<comment> \<open>\<open>os.path.join(a, b)\<close>\<close>
  "path_join a b =
     (if startswith b ''/'' then b
      else if a = [] \<or> last a = CHR ''/'' then a @ b
      else a @ ''/'' @ b)"



section \<open>The world the script acts on\<close>



record world =
  files :: "string \<rightharpoonup> string"
  out :: "string list"
  transfers :: "(string \<times> string) list"
  written :: "string list"

text \<open>
  \<open>files\<close> maps each existing path to its text, \<open>out\<close> holds the argument of every
  \<open>print\<close> in order, \<open>transfers\<close> the calls of \<open>urlretrieve\<close> (URL and destination),
  \<open>written\<close> the paths the script itself has opened for writing.
\<close>

definition print :: "string \<Rightarrow> world \<Rightarrow> world" where
  "print s w = w\<lparr>out := out w @ [s]\<rparr>"

definition exists :: "string \<Rightarrow> world \<Rightarrow> bool" where
  \<comment> \<open>\<open>os.path.exists\<close>\<close>
  "exists p w = (files w p \<noteq> None)"

record rfc_root =
  number :: "string option"
  docName :: "string option"
  title_text :: "string option"
  seriesInfo :: "(string option \<times> string option) list"

text \<open>
  The root of the prepared tree, as far as the script reads it: the attributes \<open>number\<close>
  and \<open>docName\<close>, the joined text of \<open>./front/title\<close> (None when there is no such
  element), and the \<open>name\<close> and \<open>value\<close> attributes of every \<open>./front/seriesInfo\<close>
  in document order.
\<close>

record tools =
  urlretrieve :: "string \<Rightarrow> exn + string"
  xml2rfc_prep :: "string \<Rightarrow> exn + rfc_root option"
  texinfo_write :: "string \<Rightarrow> string set \<Rightarrow> exn + string"
  makeinfo :: "string \<Rightarrow> exn + string \<times> string option"
  glob :: "string \<Rightarrow> string list"
  abspath :: "string \<Rightarrow> string"
  doc :: "string"

text \<open>
  What the script calls and does not define: \<open>urlretrieve\<close> gives the text behind a URL or
  raises; \<open>xml2rfc_prep\<close> stands for parsing a file and, when needed, converting and
  preparing it (lines 107 to 118): it raises, or yields no tree, or the root of the tree;
  \<open>texinfo_write\<close> is the Texinfo writer on that file with the local Info names: the
  text it writes, or an exception; \<open>makeinfo\<close> on a Texinfo path gives the error stream
  and the Info text when one is produced, or raises when the program cannot be run;
  \<open>glob\<close> lists the paths that match a pattern; \<open>doc\<close> is the module's docstring.
\<close>
section \<open>Fetching\<close>

definition fetch_xml :: "tools \<Rightarrow> string \<Rightarrow> string \<Rightarrow> world \<Rightarrow> (exn + string) \<times> world" where
  "fetch_xml t url output_path w =
     (if exists output_path w then (Inr output_path, print (''  [cached] '' @ basename output_path) w)
      else
        let w1 = print (''  Fetching '' @ url @ '' ...'') w;
            w2 = w1\<lparr>transfers := transfers w1 @ [(url, output_path)]\<rparr>
        in case urlretrieve t url of
             Inl e \<Rightarrow> (Inl e, w2)
           | Inr text \<Rightarrow> (Inr output_path, w2\<lparr>files := (files w2)(output_path \<mapsto> text)\<rparr>))"


section \<open>Converting one file\<close>

type_synonym entry = "string \<times> string \<times> string"






section \<open>The Info dir file\<close>

definition dir_header :: "string list" where
  "dir_header =
     [''This is the file .../info/dir, which contains the'',
      ''topmost node of the Info hierarchy, called (dir)Top.'',
      [],
      [CHR 0x1F],
      ''File: dir,'' @ [CHR 0x09] @ ''Node: Top'' @ [CHR 0x09] @ ''This is the top of the INFO tree'',
      [],
      ''* Menu:'',
      [],
      ''RFC and Internet-Draft Specifications'']"

definition menu_line :: "entry \<Rightarrow> string" where
  \<comment> \<open>the body of the loop of lines 199 to 202\<close>
  "menu_line e =
     (case e of (info_basename, doc_id, title) \<Rightarrow>
        let name = replace ''.info'' [] info_basename;
            label = (if doc_id \<noteq> [] then doc_id else name)
        in ''* '' @ label @ '': ('' @ name @ '').  '' @ title @ ''.'')"

definition dir_lines :: "entry list \<Rightarrow> string list" where
  \<comment> \<open>the list \<open>lines\<close>; \<open>sorted\<close> is stable, as \<open>sort_key\<close> is\<close>
  "dir_lines entries =
     dir_header @ map menu_line (sort_key (\<lambda>e. fst (snd e)) entries) @ [[]]"

definition generate_dir_file :: "string \<Rightarrow> entry list \<Rightarrow> world \<Rightarrow> world" where
  "generate_dir_file directory entries w =
     (let dir_path = path_join directory ''dir'';
          w1 = w\<lparr>files := (files w)(dir_path \<mapsto> join [CHR 0x0A] (dir_lines entries)),
                 written := written w @ [dir_path]\<rparr>
      in print ([CHR 0x0A] @ ''Generated dir file: '' @ dir_path) w1)"

section \<open>The entry point\<close>







section \<open>Shapes of config lines\<close>

text \<open>
  The words in which the properties of the config reader are stated: a blank string, a
  field (a non-empty run with no whitespace and no comment sign), what may follow the last
  field of a line (whitespace, then possibly a comment), the lines the reader skips, the
  fields it reads from a line, the three shapes of a line, and the wider test the reader
  makes.
\<close>

definition blank :: "string \<Rightarrow> bool" where
  "blank s = list_all isspace s"

definition field :: "string \<Rightarrow> bool" where
  "field s = (s \<noteq> [] \<and> list_all (\<lambda>c. \<not> isspace c \<and> c \<noteq> CHR ''#'') s)"

definition trailer :: "string \<Rightarrow> bool" where
  "trailer s = list_all isspace (takeWhile (\<lambda>c. c \<noteq> CHR ''#'') s)"

definition skipped :: "string \<Rightarrow> bool" where
  \<comment> \<open>empty after stripping, or a comment from its first character on\<close>
  "skipped raw = (strip raw = [] \<or> startswith (strip raw) ''#'')"

definition fields :: "string \<Rightarrow> string list" where
  "fields raw = split (strip_inline_comment (strip raw))"




definition warning :: "string \<Rightarrow> string" where
  \<comment> \<open>the warning printed for a raw line\<close>
  "warning raw = ''  Warning: skipping unrecognized line: '' @ strip_inline_comment (strip raw)"

section \<open>Words for the properties of the converter and of the entry point\<close>







definition empty_world :: world where
  "empty_world = \<lparr>files = Map.empty, out = [], transfers = [], written = []\<rparr>"



definition sample_tools :: tools where
  \<comment> \<open>a network that serves RFC 9126 and one draft, a library that can read only the
      cached RFC 9126, a working makeinfo\<close>
  "sample_tools =
     \<lparr>urlretrieve = (\<lambda>u. if u = ''https://www.rfc-editor.org/rfc/rfc9126.xml'' \<or>
                             u = ''https://www.ietf.org/archive/id/draft-x.xml''
                          then Inr ''<rfc/>'' else Inl (Error ''HTTP Error 404: Not Found'')),
      xml2rfc_prep = (\<lambda>p. if p = ''/s/xml/rfc9126.xml''
                           then Inr (Some \<lparr>number = Some ''9126'', docName = None,
                                  title_text = Some ''OAuth 2.0 Rich Authorization Requests'',
                                  seriesInfo = []\<rparr>)
                           else Inl (Error ''syntax error'')),
      texinfo_write = (\<lambda>p names. Inr ''texinfo''),
      makeinfo = (\<lambda>p. Inr ([], Some ''info'')),
      glob = (\<lambda>p. []),
      abspath = (\<lambda>p. ''/cwd/'' @ p),
      doc = ''Usage''\<rparr>"

section \<open>Stripping and splitting\<close>

lemma rstrip_Cons_nonspace: "\<not> isspace x \<Longrightarrow> rstrip (x # xs) = x # rstrip xs"
  by (simp add: rstrip_def dropWhile_append)

lemma rstrip_append_nonspace: "\<not> isspace x \<Longrightarrow> rstrip (xs @ x # ys) = xs @ x # rstrip ys"
  by (induction xs) (auto simp: rstrip_def dropWhile_append)

lemma rstrip_spaces: "list_all isspace ws \<Longrightarrow> rstrip ws = []"
  by (simp add: rstrip_def list_all_iff)

lemma rstrip_append_spaces:
  assumes "xs \<noteq> []" "\<not> isspace (last xs)" "list_all isspace ws"
  shows "rstrip (xs @ ws) = xs"
proof -
  from assms(1) obtain ys y where xs: "xs = ys @ [y]" by (metis append_butlast_last_id)
  with assms(2) have "\<not> isspace y" by simp
  then have "rstrip (ys @ y # ws) = ys @ y # rstrip ws" by (rule rstrip_append_nonspace)
  with assms(3) xs show ?thesis by (simp add: rstrip_spaces)
qed

lemma lstrip_spaces_nonspace:
  "list_all isspace ws \<Longrightarrow> xs \<noteq> [] \<Longrightarrow> \<not> isspace (hd xs) \<Longrightarrow> lstrip (ws @ xs) = xs"
  by (cases xs) (auto simp: lstrip_def list_all_iff dropWhile_append)

lemma strip_Cons:
  assumes "strip s \<noteq> []"
  shows "\<exists>x xs. strip s = x # xs \<and> \<not> isspace x"
proof -
  from assms have "lstrip s \<noteq> []" by (auto simp: strip_def rstrip_def)
  then obtain x xs where l: "lstrip s = x # xs" by (cases "lstrip s") auto
  then have "\<not> isspace x" unfolding lstrip_def by (metis hd_dropWhile list.sel(1) list.distinct(1))
  with l show ?thesis by (simp add: strip_def rstrip_Cons_nonspace)
qed

lemma split_from_nonempty:
  "cur \<noteq> [] \<or> \<not> list_all isspace s \<Longrightarrow> split_from cur s \<noteq> []"
  by (induction s arbitrary: cur) auto

lemma strip_inline_comment_Cons:
  assumes "\<not> isspace x" "x \<noteq> CHR ''#''"
  shows "\<exists>ys. strip_inline_comment (x # xs) = x # ys"
  using assms by (auto simp: strip_inline_comment_def strip_def lstrip_def rstrip_Cons_nonspace)

lemma fields_nonempty:
  assumes "strip raw \<noteq> []" "\<not> startswith (strip raw) ''#''"
  shows "split (strip_inline_comment (strip raw)) \<noteq> []"
proof -
  from assms(1) obtain x xs where s: "strip raw = x # xs" "\<not> isspace x"
    using strip_Cons by blast
  with assms(2) have "x \<noteq> CHR ''#''" by (simp add: startswith_def)
  with s obtain ys where "strip_inline_comment (strip raw) = x # ys"
    using strip_inline_comment_Cons by metis
  with s(2) show ?thesis by (simp add: split_def split_from_nonempty)
qed

lemma split_from_token:
  "list_all (\<lambda>c. \<not> isspace c) tok \<Longrightarrow> split_from cur (tok @ rest) = split_from (cur @ tok) rest"
  by (induction tok arbitrary: cur) auto

lemma split_from_spaces:
  "list_all isspace ws \<Longrightarrow> ws \<noteq> [] \<Longrightarrow> cur \<noteq> [] \<Longrightarrow>
   split_from cur (ws @ rest) = cur # split_from [] rest"
proof (induction ws arbitrary: cur)
  case Nil
  then show ?case by simp
next
  case (Cons c ws)
  have skip: "split_from [] (ws @ rest) = split_from [] rest" if "list_all isspace ws" for ws
    using that by (induction ws) auto
  from Cons.prems show ?case by (simp add: skip)
qed

lemma field_token: "field s \<Longrightarrow> list_all (\<lambda>c. \<not> isspace c) s"
  by (simp add: field_def list_all_iff)

lemma field_no_hash: "field s \<Longrightarrow> CHR ''#'' \<notin> set s"
  by (auto simp: field_def list_all_iff)

lemma field_ends: "field s \<Longrightarrow> s \<noteq> [] \<and> \<not> isspace (hd s) \<and> \<not> isspace (last s)"
  by (auto simp: field_def list_all_iff)

lemma blank_no_hash: "blank s \<Longrightarrow> CHR ''#'' \<notin> set s"
  by (auto simp: blank_def list_all_iff isspace_def)

lemma clean_line:
  assumes pre: "blank pre"
    and body: "body \<noteq> []" "\<not> isspace (hd body)" "\<not> isspace (last body)" "CHR ''#'' \<notin> set body"
    and rest: "trailer rest"
  shows "\<not> skipped (pre @ body @ rest) \<and> strip_inline_comment (strip (pre @ body @ rest)) = body"
proof -
  obtain b bs where b: "body = b # bs" using body(1) by (cases body) auto
  with body have hb: "\<not> isspace b" "b \<noteq> CHR ''#''" by auto
  have l: "lstrip (pre @ body @ rest) = body @ rest"
    using pre body lstrip_spaces_nonspace [of pre "body @ rest"] by (simp add: blank_def)
  have sb: "strip (body @ w) = body" if "list_all isspace w" for w
  proof -
    have "lstrip (body @ w) = body @ w" using hb b by (simp add: lstrip_def)
    then show ?thesis using that body by (simp add: strip_def rstrip_append_spaces)
  qed
  show ?thesis
  proof (cases "CHR ''#'' \<in> set rest")
    case False
    then have "takeWhile (\<lambda>c. c \<noteq> CHR ''#'') rest = rest" by (auto simp: takeWhile_eq_all_conv)
    with rest have br: "list_all isspace rest" by (simp add: trailer_def)
    have s: "strip (pre @ body @ rest) = body"
      using l br body by (simp add: strip_def rstrip_append_spaces)
    with body False b hb show ?thesis
      by (simp add: skipped_def startswith_def strip_inline_comment_def)
  next
    case True
    define w where "w = takeWhile (\<lambda>c. c \<noteq> CHR ''#'') rest"
    define d where "d = dropWhile (\<lambda>c. c \<noteq> CHR ''#'') rest"
    have rd: "rest = w @ d" by (simp add: w_def d_def)
    from True have "d \<noteq> []" by (auto simp: d_def dropWhile_eq_Nil_conv)
    moreover have "d \<noteq> [] \<Longrightarrow> hd d = CHR ''#''"
      unfolding d_def using hd_dropWhile [of "\<lambda>c. c \<noteq> CHR ''#''" rest] by auto
    ultimately obtain cmt where d: "d = CHR ''#'' # cmt" by (cases d) auto
    have bw: "list_all isspace w" using rest by (simp add: trailer_def w_def)
    have nb: "\<forall>c\<in>set body. c \<noteq> CHR ''#''" using body(4) by auto
    have nw: "\<forall>c\<in>set w. c \<noteq> CHR ''#''" by (auto simp: w_def dest: set_takeWhileD)
    have "\<not> isspace (CHR ''#'')" by (simp add: isspace_def)
    then have "rstrip ((body @ w) @ CHR ''#'' # cmt) = (body @ w) @ CHR ''#'' # rstrip cmt"
      by (rule rstrip_append_nonspace)
    with l rd d have s: "strip (pre @ body @ rest) = body @ w @ CHR ''#'' # rstrip cmt"
      by (simp add: strip_def)
    have t: "takeWhile (\<lambda>c. c \<noteq> CHR ''#'') (body @ w @ CHR ''#'' # rstrip cmt) = body @ w"
      using nb nw by (simp add: takeWhile_append2)
    have "strip_inline_comment (strip (pre @ body @ rest)) = strip (body @ w)"
      unfolding s strip_inline_comment_def t by simp
    with sb bw have "strip_inline_comment (strip (pre @ body @ rest)) = body" by simp
    moreover have "\<not> skipped (pre @ body @ rest)"
      using s b hb by (simp add: skipped_def startswith_def)
    ultimately show ?thesis by simp
  qed
qed

lemma split_two:
  assumes "k \<noteq> []" "list_all (\<lambda>c. \<not> isspace c) k" "blank sep" "sep \<noteq> []" "field x"
  shows "split (k @ sep @ x) = [k, x]"
proof -
  have "split (k @ sep @ x) = split_from k (sep @ x)"
    using assms(2) by (simp add: split_def split_from_token)
  also have "\<dots> = k # split_from [] (x @ [])"
    using assms by (simp add: split_from_spaces blank_def)
  also have "split_from [] (x @ []) = [x]"
    using assms(5) field_token [of x] split_from_token [of x "[]" "[]"] by (simp add: field_def)
  finally show ?thesis .
qed

lemma split_three:
  assumes "k \<noteq> []" "list_all (\<lambda>c. \<not> isspace c) k" "blank s1" "s1 \<noteq> []" "field a"
    "blank s2" "s2 \<noteq> []" "field b"
  shows "split (k @ s1 @ a @ s2 @ b) = [k, a, b]"
proof -
  have "split (k @ s1 @ a @ s2 @ b) = split_from k (s1 @ a @ s2 @ b)"
    using assms(2) by (simp add: split_def split_from_token)
  also have "\<dots> = k # split_from [] (a @ s2 @ b)"
    using assms by (simp add: split_from_spaces blank_def)
  also have "split_from [] (a @ s2 @ b) = split_from a (s2 @ b)"
    using field_token [OF assms(5)] by (simp add: split_from_token)
  also have "\<dots> = a # split_from [] (b @ [])"
    using assms by (simp add: split_from_spaces blank_def field_def)
  also have "split_from [] (b @ []) = [b]"
    using assms(8) field_token [of b] split_from_token [of b "[]" "[]"] by (simp add: field_def)
  finally show ?thesis .
qed

section \<open>The config reader never raises\<close>

lemma parse_line_total: "\<exists>specs' printed'. parse_line raw (specs, printed) = Inr (specs', printed')"
proof (cases "strip raw = [] \<or> startswith (strip raw) ''#''")
  case True
  then show ?thesis by (auto simp: parse_line_def)
next
  case False
  then have "split (strip_inline_comment (strip raw)) \<noteq> []" using fields_nonempty by blast
  then obtain k ps where "split (strip_inline_comment (strip raw)) = k # ps"
    by (cases "split (strip_inline_comment (strip raw))") auto
  with False show ?thesis by (simp add: parse_line_def Let_def)
qed

lemma parse_lines_total: "\<exists>specs' printed'. parse_lines ls st = Inr (specs', printed')"
proof (induction ls arbitrary: st)
  case Nil
  then show ?case by (cases st) simp
next
  case (Cons raw rest)
  obtain specs printed where st: "st = (specs, printed)" by (cases st)
  obtain s' o' where "parse_line raw (specs, printed) = Inr (s', o')" using parse_line_total by blast
  with st Cons show ?case by simp
qed

lemma parse_line_fields:
  assumes "\<not> skipped raw" "fields raw = kind # ps"
  shows "parse_line raw (specs, printed) =
    (if kind = ''rfc'' \<and> ps \<noteq> [] then Inr (specs @ [(RFC_URL (ps ! 0), ''rfc'' @ ps ! 0)], printed)
     else if kind = ''draft'' \<and> ps \<noteq> [] then Inr (specs @ [(DRAFT_URL (ps ! 0), ps ! 0)], printed)
     else if kind = ''url'' \<and> length ps \<ge> 2 then Inr (specs @ [(ps ! 0, ps ! 1)], printed)
     else Inr (specs, printed @ [warning raw]))"
proof -
  have a: "2 \<le> Suc (length ps) \<longleftrightarrow> ps \<noteq> []" by (cases ps) auto
  have b: "3 \<le> Suc (length ps) \<longleftrightarrow> 2 \<le> length ps" by arith
  show ?thesis
    using assms a b
    by (auto simp add: parse_line_def skipped_def fields_def Let_def warning_def)
qed

lemma parse_line_skipped:
  "skipped raw \<Longrightarrow> parse_line raw (specs, printed) = Inr (specs, printed)"
  by (simp add: parse_line_def skipped_def)

lemma parse_lines_append:
  "parse_lines (xs @ ys) st =
     (case parse_lines xs st of Inl e \<Rightarrow> Inl e | Inr st' \<Rightarrow> parse_lines ys st')"
  by (induction xs arbitrary: st) (auto split: sum.splits)

lemma parse_line_shift:
  assumes "parse_line raw ([], []) = Inr (ds, dp)"
  shows "parse_line raw (specs, printed) = Inr (specs @ ds, printed @ dp)"
proof (cases "skipped raw")
  case True
  with assms show ?thesis by (simp add: parse_line_skipped)
next
  case False
  then have "fields raw \<noteq> []" using fields_nonempty by (simp add: skipped_def fields_def)
  then obtain kind ps where "fields raw = kind # ps" by (cases "fields raw") auto
  with False assms show ?thesis
    by (auto simp: parse_line_fields split: if_splits)
qed

lemma parse_lines_shift:
  "parse_lines ls ([], []) = Inr (ds, dp) \<Longrightarrow>
   parse_lines ls (specs, printed) = Inr (specs @ ds, printed @ dp)"
proof (induction ls arbitrary: specs printed ds dp)
  case Nil
  then show ?case by simp
next
  case (Cons raw rest)
  obtain d1 p1 where one: "parse_line raw ([], []) = Inr (d1, p1)"
    using parse_line_total by blast
  obtain d2 p2 where two: "parse_lines rest ([], []) = Inr (d2, p2)"
    using parse_lines_total by blast
  from one two Cons.IH [OF two, of d1 p1] Cons.prems have "ds = d1 @ d2" "dp = p1 @ p2"
    by auto
  with one two Cons.IH [OF two] parse_line_shift [OF one] show ?case by simp
qed

lemma parse_specs_conf_insert:
  assumes "parse_specs_conf before = Inr (s1, p1)" "parse_specs_conf after = Inr (s2, p2)"
    "parse_line raw ([], []) = Inr (ds, dp)"
  shows "parse_specs_conf (before @ raw # after) = Inr (s1 @ ds @ s2, p1 @ dp @ p2)"
  using assms parse_line_shift [OF assms(3), of s1 p1]
    parse_lines_shift [of after s2 p2 "s1 @ ds" "p1 @ dp"]
  by (simp add: parse_specs_conf_def parse_lines_append)

text \<open>
  C10. \<open>parse_specs_conf\<close> returns for every sequence of lines: \<open>parts[0]\<close> never raises
  IndexError, because every line is either skipped before the split or has at least one
  field after it.
\<close>

theorem parse_specs_conf_total:
  "(\<exists>specs printed. parse_specs_conf ls = Inr (specs, printed)) \<and>
   (skipped raw \<or> fields raw \<noteq> [])"
proof
  show "\<exists>specs printed. parse_specs_conf ls = Inr (specs, printed)"
    unfolding parse_specs_conf_def by (rule parse_lines_total)
  show "skipped raw \<or> fields raw \<noteq> []"
    using fields_nonempty [of raw] by (auto simp: skipped_def fields_def)
qed

lemma keyword_line:
  assumes "blank pre" "k \<noteq> []" "list_all (\<lambda>c. \<not> isspace c \<and> c \<noteq> CHR ''#'') k"
    "blank sep" "sep \<noteq> []" "field x" "trailer rest"
  shows "\<not> skipped (pre @ k @ sep @ x @ rest) \<and> fields (pre @ k @ sep @ x @ rest) = [k, x]"
proof -
  let ?body = "k @ sep @ x"
  have k: "\<not> isspace (hd k)" "CHR ''#'' \<notin> set k" "list_all (\<lambda>c. \<not> isspace c) k"
    using assms(2,3) by (cases k; auto simp: list_all_iff)+
  have "?body \<noteq> []" "\<not> isspace (hd ?body)" "\<not> isspace (last ?body)" "CHR ''#'' \<notin> set ?body"
    using assms k field_ends [of x] field_no_hash [of x] blank_no_hash [of sep] by auto
  from clean_line [OF assms(1) this assms(7)]
  have "\<not> skipped (pre @ ?body @ rest)" "strip_inline_comment (strip (pre @ ?body @ rest)) = ?body"
    by auto
  moreover have "split ?body = [k, x]" using assms k by (intro split_two) auto
  ultimately show ?thesis by (simp add: fields_def)
qed

lemma keyword_line3:
  assumes "blank pre" "k \<noteq> []" "list_all (\<lambda>c. \<not> isspace c \<and> c \<noteq> CHR ''#'') k"
    "blank s1" "s1 \<noteq> []" "field a" "blank s2" "s2 \<noteq> []" "field b" "trailer rest"
  shows "\<not> skipped (pre @ k @ s1 @ a @ s2 @ b @ rest) \<and>
         fields (pre @ k @ s1 @ a @ s2 @ b @ rest) = [k, a, b]"
proof -
  let ?body = "k @ s1 @ a @ s2 @ b"
  have k: "\<not> isspace (hd k)" "CHR ''#'' \<notin> set k" "list_all (\<lambda>c. \<not> isspace c) k"
    using assms(2,3) by (cases k; auto simp: list_all_iff)+
  have "?body \<noteq> []" "\<not> isspace (hd ?body)" "\<not> isspace (last ?body)" "CHR ''#'' \<notin> set ?body"
    using assms k field_ends [of b] field_no_hash [of a] field_no_hash [of b]
      blank_no_hash [of s1] blank_no_hash [of s2] by auto
  from clean_line [OF assms(1) this assms(10)]
  have "\<not> skipped (pre @ ?body @ rest)" "strip_inline_comment (strip (pre @ ?body @ rest)) = ?body"
    by auto
  moreover have "split ?body = [k, a, b]" using assms k by (intro split_three) auto
  ultimately show ?thesis by (simp add: fields_def)
qed

section \<open>The three shapes of a config line\<close>

text \<open>
  C9. A line \<open>rfc <number>\<close> gives exactly one entry, the URL of the RFC archive with
  the number put in and the name \<open>rfc<number>\<close>; a line \<open>draft <name>\<close> gives exactly
  one entry, the URL of the IETF archive with the name put in, and the name. The line may be
  indented, its fields are separated by whitespace, and whitespace and a comment may follow;
  the other lines of the file keep their entries and warnings.
\<close>

theorem rfc_and_draft_lines:
  assumes "blank pre" "blank sep" "sep \<noteq> []" "field num" "field name" "trailer rest"
    and "parse_specs_conf before = Inr (s1, p1)" "parse_specs_conf after = Inr (s2, p2)"
  shows "parse_specs_conf (before @ (pre @ ''rfc'' @ sep @ num @ rest) # after) =
           Inr (s1 @ [(''https://www.rfc-editor.org/rfc/rfc'' @ num @ ''.xml'', ''rfc'' @ num)] @ s2,
                p1 @ p2) \<and>
         parse_specs_conf (before @ (pre @ ''draft'' @ sep @ name @ rest) # after) =
           Inr (s1 @ [(''https://www.ietf.org/archive/id/'' @ name @ ''.xml'', name)] @ s2,
                p1 @ p2)"
proof -
  have nospace: "list_all (\<lambda>c. \<not> isspace c \<and> c \<noteq> CHR ''#'') ''rfc''"
    "list_all (\<lambda>c. \<not> isspace c \<and> c \<noteq> CHR ''#'') ''draft''"
    by (simp_all add: isspace_def)
  have r: "\<not> skipped (pre @ ''rfc'' @ sep @ num @ rest)"
    "fields (pre @ ''rfc'' @ sep @ num @ rest) = [''rfc'', num]"
    using keyword_line [OF assms(1) _ nospace(1) assms(2,3,4,6)] by auto
  have d: "\<not> skipped (pre @ ''draft'' @ sep @ name @ rest)"
    "fields (pre @ ''draft'' @ sep @ name @ rest) = [''draft'', name]"
    using keyword_line [OF assms(1) _ nospace(2) assms(2,3,5,6)] by auto
  have "parse_line (pre @ ''rfc'' @ sep @ num @ rest) ([], []) =
          Inr ([(''https://www.rfc-editor.org/rfc/rfc'' @ num @ ''.xml'', ''rfc'' @ num)], [])"
    using parse_line_fields [OF r, of "[]" "[]"] by (simp add: RFC_URL_def)
  moreover have "parse_line (pre @ ''draft'' @ sep @ name @ rest) ([], []) =
          Inr ([(''https://www.ietf.org/archive/id/'' @ name @ ''.xml'', name)], [])"
    using parse_line_fields [OF d, of "[]" "[]"] by (simp add: DRAFT_URL_def)
  ultimately show ?thesis
    using parse_specs_conf_insert [OF assms(7,8)] by simp
qed

theorem rfc_and_draft_lines_witness:
  "parse_specs_conf [''rfc 9126   # Fetch RFC by number''] =
     Inr ([(''https://www.rfc-editor.org/rfc/rfc9126.xml'', ''rfc9126'')], []) \<and>
   parse_specs_conf [''draft draft-ietf-oauth-browser-based-apps-26   # Fetch RFC by number''] =
     Inr ([(''https://www.ietf.org/archive/id/draft-ietf-oauth-browser-based-apps-26.xml'',
            ''draft-ietf-oauth-browser-based-apps-26'')], [])"
  using rfc_and_draft_lines [of "[]" "'' ''" "''9126''" "''draft-ietf-oauth-browser-based-apps-26''"
      "''   # Fetch RFC by number''" "[]" "[]" "[]" "[]" "[]" "[]"]
  by (simp add: blank_def field_def trailer_def isspace_def parse_specs_conf_def)

text \<open>
  C3, as the code has it. A line \<open>url <url> <name>\<close> gives exactly the entry
  \<open>(url, name)\<close>, both unchanged, when neither field holds the comment sign \<open>#\<close>.
\<close>

theorem url_lines:
  assumes "blank pre" "blank sep1" "sep1 \<noteq> []" "field url" "blank sep2" "sep2 \<noteq> []"
    "field name" "trailer rest"
    and "parse_specs_conf before = Inr (s1, p1)" "parse_specs_conf after = Inr (s2, p2)"
  shows "parse_specs_conf (before @ (pre @ ''url'' @ sep1 @ url @ sep2 @ name @ rest) # after) =
           Inr (s1 @ [(url, name)] @ s2, p1 @ p2)"
proof -
  have nospace: "list_all (\<lambda>c. \<not> isspace c \<and> c \<noteq> CHR ''#'') ''url''"
    by (simp add: isspace_def)
  have u: "\<not> skipped (pre @ ''url'' @ sep1 @ url @ sep2 @ name @ rest)"
    "fields (pre @ ''url'' @ sep1 @ url @ sep2 @ name @ rest) = [''url'', url, name]"
    using keyword_line3 [OF assms(1) _ nospace assms(2-8)] by auto
  have "parse_line (pre @ ''url'' @ sep1 @ url @ sep2 @ name @ rest) ([], []) =
          Inr ([(url, name)], [])"
    using parse_line_fields [OF u, of "[]" "[]"] by simp
  then show ?thesis
    using parse_specs_conf_insert [OF assms(9,10)] by simp
qed

theorem url_lines_witness:
  "parse_specs_conf [''url https://example.com/spec.xml name     # Fetch from arbitrary URL''] =
     Inr ([(''https://example.com/spec.xml'', ''name'')], [])"
  using url_lines [of "[]" "'' ''" "''https://example.com/spec.xml''" "'' ''" "''name''"
      "''     # Fetch from arbitrary URL''" "[]" "[]" "[]" "[]" "[]" "[]"]
  by (simp add: blank_def field_def trailer_def isspace_def parse_specs_conf_def)

text \<open>
  A URL that holds \<open>#\<close> is cut there as an inline comment: the line is left with two
  fields, gives a warning and no entry.
\<close>

theorem url_with_hash_counterexample:
  "parse_specs_conf [''url https://example.com/spec.xml#sec1 name''] =
     Inr ([], [''  Warning: skipping unrecognized line: url https://example.com/spec.xml'']) \<and>
   parse_specs_conf [''url https://example.com/spec.xml#sec1 name''] \<noteq>
     Inr ([(''https://example.com/spec.xml#sec1'', ''name'')], [])"
  by (simp add: parse_specs_conf_def parse_line_def strip_def lstrip_def rstrip_def isspace_def
      startswith_def strip_inline_comment_def split_def)

section \<open>Lines that give no entry\<close>




section \<open>The canonical identifier\<close>





section \<open>The Info dir file\<close>

lemma hd_sorted_least:
  fixes ks :: "string list"
  assumes "sorted ks" "[] \<in> set ks"
  shows "hd ks = []"
proof -
  from assms(2) obtain k rest where ks: "ks = k # rest" by (cases ks) auto
  with assms have "k \<le> []" by auto
  then show ?thesis using ks by simp
qed

lemma generate_dir_file_effect:
  "files (generate_dir_file d xs w) =
     (files w)(path_join d ''dir'' \<mapsto> join [CHR 0x0A] (dir_lines xs))"
  "out (generate_dir_file d xs w) =
     out w @ [[CHR 0x0A] @ ''Generated dir file: '' @ path_join d ''dir'']"
  "written (generate_dir_file d xs w) = written w @ [path_join d ''dir'']"
  "transfers (generate_dir_file d xs w) = transfers w"
  by (simp_all add: generate_dir_file_def Let_def print_def)

text \<open>
  C2, as the code has it. For every list of entries, the file written at the dir path is
  the header, one menu line for each entry and an empty last line, joined by newlines; the
  menu lines are those of the entries in the order of their identifiers, an entry with the
  empty identifier first when there is one, and the entries that share an identifier stand
  in the order the list gave them. No other file is touched and the notice is printed.
  Two lists with the same entries the same number of times, in any orders, in which no two
  different entries share an identifier, give the same file and leave the same world.
\<close>

theorem dir_file_order:
  "(\<exists>es. files (generate_dir_file d xs w) (path_join d ''dir'') =
            Some (join [CHR 0x0A] (dir_header @ map menu_line es @ [[]])) \<and>
         mset es = mset xs \<and>
         sorted (map (\<lambda>e. fst (snd e)) es) \<and>
         (\<forall>k. filter (\<lambda>e. fst (snd e) = k) es = filter (\<lambda>e. fst (snd e) = k) xs) \<and>
         ([] \<in> set (map (\<lambda>e. fst (snd e)) xs) \<longrightarrow> fst (snd (hd es)) = [])) \<and>
   (\<forall>p. p \<noteq> path_join d ''dir'' \<longrightarrow> files (generate_dir_file d xs w) p = files w p) \<and>
   out (generate_dir_file d xs w) =
     out w @ [[CHR 0x0A] @ ''Generated dir file: '' @ path_join d ''dir''] \<and>
   (mset xs = mset ys \<and> inj_on (\<lambda>e. fst (snd e)) (set xs) \<longrightarrow>
      files (generate_dir_file d xs w) (path_join d ''dir'') =
        files (generate_dir_file d ys w) (path_join d ''dir'') \<and>
      generate_dir_file d xs w = generate_dir_file d ys w)"
proof -
  let ?key = "\<lambda>e::entry. fst (snd e)"
  let ?es = "sort_key ?key xs"
  have same: "generate_dir_file d xs w = generate_dir_file d ys w"
    if "mset xs = mset ys" "inj_on ?key (set xs)"
  proof -
    from that have "sort_key ?key xs = sort_key ?key ys" by (rule sort_key_eq_sort_key)
    then show ?thesis by (simp add: generate_dir_file_def dir_lines_def)
  qed
  have s: "sorted (map ?key ?es)" by simp
  have stable: "filter (\<lambda>e. ?key e = k) ?es = filter (\<lambda>e. ?key e = k) xs" for k
    by (rule sort_key_stable)
  have first: "fst (snd (hd ?es)) = []" if "[] \<in> set (map ?key xs)"
  proof -
    from that have "[] \<in> set (map ?key ?es)" by simp
    with s have "hd (map ?key ?es) = []" by (rule hd_sorted_least)
    moreover from that have "length ?es \<noteq> 0" by (simp only: length_sort) auto
    then have "?es \<noteq> []" by (simp only: length_0_conv not_False_eq_True)
    ultimately show ?thesis by (simp add: hd_map)
  qed
  have content: "files (generate_dir_file d xs w) (path_join d ''dir'') =
      Some (join [CHR 0x0A] (dir_header @ map menu_line ?es @ [[]]))"
    by (simp add: generate_dir_file_effect dir_lines_def)
  have "files (generate_dir_file d xs w) (path_join d ''dir'') =
          Some (join [CHR 0x0A] (dir_header @ map menu_line ?es @ [[]])) \<and>
        mset ?es = mset xs \<and> sorted (map ?key ?es) \<and>
        (\<forall>k. filter (\<lambda>e. ?key e = k) ?es = filter (\<lambda>e. ?key e = k) xs) \<and>
        ([] \<in> set (map ?key xs) \<longrightarrow> fst (snd (hd ?es)) = [])"
    using content s stable first by simp
  then have one: "\<exists>es. files (generate_dir_file d xs w) (path_join d ''dir'') =
          Some (join [CHR 0x0A] (dir_header @ map menu_line es @ [[]])) \<and>
        mset es = mset xs \<and> sorted (map ?key es) \<and>
        (\<forall>k. filter (\<lambda>e. ?key e = k) es = filter (\<lambda>e. ?key e = k) xs) \<and>
        ([] \<in> set (map ?key xs) \<longrightarrow> fst (snd (hd es)) = [])"
    by (rule exI)
  have other: "\<forall>p. p \<noteq> path_join d ''dir'' \<longrightarrow> files (generate_dir_file d xs w) p = files w p"
    by (simp add: generate_dir_file_effect)
  have notice: "out (generate_dir_file d xs w) =
      out w @ [[CHR 0x0A] @ ''Generated dir file: '' @ path_join d ''dir'']"
    by (rule generate_dir_file_effect)
  from one other notice same show ?thesis by simp
qed

theorem dir_file_order_witness:
  "generate_dir_file ''/s'' [(''b.info'', ''RFC 2'', ''B''), (''a.info'', [], ''A'')] empty_world =
   generate_dir_file ''/s'' [(''a.info'', [], ''A''), (''b.info'', ''RFC 2'', ''B'')] empty_world \<and>
   (\<exists>es. files (generate_dir_file ''/s'' [(''b.info'', ''RFC 2'', ''B''), (''a.info'', [], ''A'')]
                  empty_world) ''/s/dir'' =
           Some (join [CHR 0x0A] (dir_header @ map menu_line es @ [[]])) \<and>
         mset es = mset [(''b.info'', ''RFC 2'', ''B''), (''a.info'', [], ''A'')] \<and>
         fst (snd (hd es)) = []) \<and>
   files (generate_dir_file ''/s'' [(''b.info'', ''RFC 2'', ''B''), (''a.info'', [], ''A'')]
            empty_world) ''/s/xml/rfc1.xml'' = None"
proof -
  let ?xs = "[(''b.info'', ''RFC 2'', ''B''), (''a.info'', [], ''A'')] :: entry list"
  let ?ys = "[(''a.info'', [], ''A''), (''b.info'', ''RFC 2'', ''B'')] :: entry list"
  have p: "path_join ''/s'' ''dir'' = ''/s/dir''" by (simp add: path_join_def startswith_def)
  have h1: "mset ?xs = mset ?ys \<and> inj_on (\<lambda>e. fst (snd e)) (set ?xs)" by (simp add: inj_on_def)
  have h2: "[] \<in> set (map (\<lambda>e. fst (snd e)) ?xs)" by simp
  have h3: "''/s/xml/rfc1.xml'' \<noteq> path_join ''/s'' ''dir''" by (simp add: p)
  have e: "files empty_world ''/s/xml/rfc1.xml'' = None" by (simp add: empty_world_def)
  from dir_file_order [of "''/s''" ?xs empty_world ?ys] h1 h2 h3 e
  show ?thesis unfolding p by (auto simp del: sort_key_simps)
qed

text \<open>
  The sort is stable and its key is the identifier alone: two entries with the same
  identifier, here the empty one, keep the order of the input, and the two orders give
  two different files.
\<close>

theorem same_identifier_counterexample:
  "set [(''a.info'', [], ''A''), (''b.info'', [], ''B'')] =
   set [(''b.info'', [], ''B''), (''a.info'', [], ''A'')] \<and>
   files (generate_dir_file ''/s'' [(''a.info'', [], ''A''), (''b.info'', [], ''B'')] empty_world) ''/s/dir'' \<noteq>
   files (generate_dir_file ''/s'' [(''b.info'', [], ''B''), (''a.info'', [], ''A'')] empty_world) ''/s/dir''"
  by (simp add: generate_dir_file_def dir_lines_def dir_header_def menu_line_def print_def
      path_join_def startswith_def empty_world_def insert_commute Let_def)

text \<open>
  C8. The name in a menu line is the Info file name with every \<open>.info\<close> in it removed,
  not only the extension: for \<open>my.info.notes.info\<close> the line names \<open>my.notes\<close>, where
  the base name is \<open>my.info.notes\<close>.
\<close>

theorem inner_info_removed:
  "dir_lines [(''my.info.notes.info'', [], ''Notes'')] =
     dir_header @ [''* my.notes: (my.notes).  Notes.'', []]"
  by (simp add: dir_lines_def menu_line_def replace.simps [of _ _ "_ # _"] startswith_def)

section \<open>Fetching\<close>

lemma print_simps:
  "files (print s w) = files w" "transfers (print s w) = transfers w"
  "written (print s w) = written w" "out (print s w) = out w @ [s]"
  "exists p (print s w) = exists p w"
  by (simp_all add: print_def exists_def)

text \<open>
  C6. When the destination exists, \<open>fetch_xml\<close> prints the cached notice and returns the
  path; it does not call \<open>urlretrieve\<close> and leaves the files as they are. After a call
  that returned, a second call for the same destination takes that path, whatever its URL:
  the two calls together make one transfer when the destination was absent at first, and
  none when it was there.
\<close>

theorem fetch_xml_cached:
  "(exists p w \<longrightarrow>
      fetch_xml t url p w = (Inr p, print (''  [cached] '' @ basename p) w) \<and>
      transfers (snd (fetch_xml t url p w)) = transfers w \<and>
      files (snd (fetch_xml t url p w)) = files w) \<and>
   (fetch_xml t url p w = (Inr r, w1) \<longrightarrow>
      fetch_xml t url2 p w1 = (Inr p, print (''  [cached] '' @ basename p) w1) \<and>
      transfers (snd (fetch_xml t url2 p w1)) =
        transfers w @ (if exists p w then [] else [(url, p)]))"
  by (auto simp: fetch_xml_def Let_def print_simps exists_def print_def split: sum.splits)

theorem fetch_xml_cached_witness:
  "fetch_xml sample_tools ''https://www.rfc-editor.org/rfc/rfc9126.xml'' ''/s/xml/rfc9126.xml''
     (snd (fetch_xml sample_tools ''https://www.rfc-editor.org/rfc/rfc9126.xml''
             ''/s/xml/rfc9126.xml'' empty_world)) =
   (Inr ''/s/xml/rfc9126.xml'',
    print ''  [cached] rfc9126.xml''
      (snd (fetch_xml sample_tools ''https://www.rfc-editor.org/rfc/rfc9126.xml''
              ''/s/xml/rfc9126.xml'' empty_world))) \<and>
   transfers (snd (fetch_xml sample_tools ''https://www.rfc-editor.org/rfc/rfc9126.xml''
     ''/s/xml/rfc9126.xml''
     (snd (fetch_xml sample_tools ''https://www.rfc-editor.org/rfc/rfc9126.xml''
             ''/s/xml/rfc9126.xml'' empty_world)))) =
   [(''https://www.rfc-editor.org/rfc/rfc9126.xml'', ''/s/xml/rfc9126.xml'')]"
proof -
  let ?u = "''https://www.rfc-editor.org/rfc/rfc9126.xml''"
  let ?p = "''/s/xml/rfc9126.xml''"
  let ?w1 = "snd (fetch_xml sample_tools ?u ?p empty_world)"
  have none: "files empty_world ?p = None" by (simp add: empty_world_def)
  then have absent: "\<not> exists ?p empty_world" by (simp add: exists_def)
  have first: "fetch_xml sample_tools ?u ?p empty_world = (Inr ?p, ?w1)"
    by (simp add: fetch_xml_def Let_def sample_tools_def exists_def none)
  have there: "exists ?p ?w1"
    by (simp add: fetch_xml_def Let_def sample_tools_def exists_def none print_def)
  have b: "basename ?p = ''rfc9126.xml''" by (simp add: basename_def)
  from fetch_xml_cached [of ?p ?w1 sample_tools ?u "?p" ?w1 ?u] there
  have "fetch_xml sample_tools ?u ?p ?w1 = (Inr ?p, print (''  [cached] '' @ basename ?p) ?w1)"
    by blast
  moreover from fetch_xml_cached [of ?p empty_world sample_tools ?u "?p" ?w1 ?u] first
  have "transfers (snd (fetch_xml sample_tools ?u ?p ?w1)) =
          transfers empty_world @ (if exists ?p empty_world then [] else [(?u, ?p)])"
    by blast
  with absent have "transfers (snd (fetch_xml sample_tools ?u ?p ?w1)) = [(?u, ?p)]"
    by (simp only: if_False) (simp add: empty_world_def)
  ultimately show ?thesis by (simp only: b append.simps)
qed





section \<open>The entry point\<close>


















section \<open>A failing fetch in the sync mode\<close>





end
